theory Spec2Isabelle
  imports Main "HOL-Library.Sublist"
begin

section \<open>Python values used by \<open>parse_type.py\<close>\<close>

text \<open>
  Text is Python 3 \<open>str\<close>. A \<^typ>\<open>char\<close> stands for one code point in the range
  0..255; on that range \<open>str.isspace\<close> and \<open>str.lower\<close> are the functions below, and
  \<open>str.lower\<close> keeps the length of the text. An exception is a value of \<open>exn\<close>; a
  call that may raise returns \<open>exn + 'a\<close>, with \<open>Inl\<close> for the exception raised.
\<close>

datatype exn =
    AssertionError
  | KeyError string
  | ValueError
  | TypeError
  | OtherError string

definition isspace :: "char \<Rightarrow> bool" where
  "isspace c = (c \<in> set [CHR 0x09, CHR 0x0A, CHR 0x0B, CHR 0x0C, CHR 0x0D,
                          CHR 0x1C, CHR 0x1D, CHR 0x1E, CHR 0x1F, CHR 0x20,
                          CHR 0x85, CHR 0xA0])"

definition lower_char :: "char \<Rightarrow> char" where
  "lower_char c =
     (let n = (of_char c :: nat)
      in if 65 \<le> n \<and> n \<le> 90 then char_of (n + 32)
         else if 192 \<le> n \<and> n \<le> 214 then char_of (n + 32)
         else if 216 \<le> n \<and> n \<le> 222 then char_of (n + 32)
         else c)"

definition str_lower :: "string \<Rightarrow> string" where
  "str_lower s = map lower_char s"

definition str_lstrip :: "string \<Rightarrow> string" where
  "str_lstrip s = dropWhile isspace s"

definition str_rstrip :: "string \<Rightarrow> string" where
  "str_rstrip s = rev (dropWhile isspace (rev s))"

definition str_strip :: "string \<Rightarrow> string" where
  "str_strip s = str_rstrip (str_lstrip s)"

text \<open>
  \<open>str.find(sub)\<close>: the lowest index at which \<open>sub\<close> occurs, \<open>None\<close> for Python's
  \<open>-1\<close>.
\<close>

fun str_find :: "string \<Rightarrow> string \<Rightarrow> nat option" where
  "str_find sub [] = (if sub = [] then Some 0 else None)"
| "str_find sub (c # cs) =
     (if prefix sub (c # cs) then Some 0 else map_option Suc (str_find sub cs))"

text \<open>
  \<open>str.split(sep)\<close> for a separator that is a string: \<open>ValueError\<close> on the empty
  separator; otherwise the text is cut at the leftmost occurrence of \<open>sep\<close>, and the search
  goes on behind that occurrence. Adjacent separators delimit empty pieces.
\<close>

function split_pieces :: "string \<Rightarrow> string \<Rightarrow> string list" where
  "split_pieces sep s =
     (case str_find sep s of
        None \<Rightarrow> [s]
      | Some i \<Rightarrow>
          if sep = [] then [s]
          else take i s # split_pieces sep (drop (i + length sep) s))"
  by pat_completeness auto

lemma str_find_bound: "str_find sub s = Some i \<Longrightarrow> i + length sub \<le> length s"
proof (induction s arbitrary: i)
  case Nil
  then show ?case by (simp split: if_splits)
next
  case (Cons c cs)
  show ?case
  proof (cases "prefix sub (c # cs)")
    case True
    then have "length sub \<le> length (c # cs)" by (rule prefix_length_le)
    with True Cons.prems show ?thesis by simp
  next
    case False
    with Cons.prems obtain j where "str_find sub cs = Some j" and "i = Suc j"
      by auto
    with Cons.IH show ?thesis by simp
  qed
qed

termination split_pieces
proof (relation "measure (\<lambda>(sep, s). length s)")
  show "wf (measure (\<lambda>(sep, s). length s))" by simp
next
  fix sep s :: string and i :: nat
  assume "str_find sep s = Some i" and "sep \<noteq> []"
  then have "i + length sep \<le> length s" and "0 < length sep"
    by (simp_all add: str_find_bound)
  then have "length s - (i + length sep) < length s" by arith
  then show "((sep, drop (i + length sep) s), (sep, s)) \<in> measure (\<lambda>(sep, s). length s)"
    by simp
qed

declare split_pieces.simps [simp del]

definition str_split :: "string \<Rightarrow> string \<Rightarrow> exn + string list" where
  "str_split sep s = (if sep = [] then Inl ValueError else Inr (split_pieces sep s))"

text \<open>\<open>sep.join(items)\<close>.\<close>

fun str_join :: "string \<Rightarrow> string list \<Rightarrow> string" where
  "str_join sep [] = []"
| "str_join sep [x] = x"
| "str_join sep (x # y # ys) = x @ sep @ str_join sep (y # ys)"

text \<open>
  \<open>template % args\<close> with the directives \<open>%s\<close> (the next argument, a string, as it is)
  and \<open>%%\<close>. The templates of this module hold no other directive; any other one is
  reported as \<open>ValueError\<close> here.
\<close>

fun str_mod :: "string \<Rightarrow> string list \<Rightarrow> exn + string" where
  "str_mod [] [] = Inr []"
| "str_mod [] (a # as) = Inl TypeError"
| "str_mod [c] args = (if c = CHR ''%'' then Inl ValueError else map_sum id ((#) c) (str_mod [] args))"
| "str_mod (c # d # ds) args =
     (if c \<noteq> CHR ''%'' then map_sum id ((#) c) (str_mod (d # ds) args)
      else if d = CHR ''s'' then
        (case args of
           [] \<Rightarrow> Inl TypeError
         | a # as \<Rightarrow> map_sum id ((@) a) (str_mod ds as))
      else if d = CHR ''%'' then map_sum id ((#) d) (str_mod ds args)
      else Inl ValueError)"

section \<open>Cardinality: pattern constructors\<close>

text \<open>
  The three class methods of \<open>Cardinality\<close>. The raw-string templates are written with
  \<open>CHR 0x5C\<close> for the backslash.
\<close>

definition make_zero_or_one_pattern :: "string \<Rightarrow> exn + string" where
  "make_zero_or_one_pattern pattern = str_mod ''(%s)?'' [pattern]"

definition make_zero_or_more_pattern :: "string \<Rightarrow> string \<Rightarrow> exn + string" where
  "make_zero_or_more_pattern pattern listsep =
     str_mod (''(%s)?('' @ [CHR 0x5C] @ ''s*%s'' @ [CHR 0x5C] @ ''s*(%s))*'')
             [pattern, listsep, pattern]"

definition make_one_or_more_pattern :: "string \<Rightarrow> string \<Rightarrow> exn + string" where
  "make_one_or_more_pattern pattern listsep =
     str_mod (''(%s)('' @ [CHR 0x5C] @ ''s*%s'' @ [CHR 0x5C] @ ''s*(%s))*'')
             [pattern, listsep, pattern]"

section \<open>TypeBuilder: the converter functions\<close>

text \<open>
  Each builder of \<open>TypeBuilder\<close> returns an inner function closed over the builder's
  arguments; here those arguments are the leading parameters of the inner function. A
  base converter \<open>parse_type\<close> is any function from text to a value that may raise.
  \<open>parse_optional\<close> and \<open>parse_list0\<close> test their argument for truth before they
  touch it, so they also accept Python's \<open>None\<close> (a missing match): their text is a
  \<open>string option\<close>, and \<open>truthy\<close> is Python's truth of such a value. Behind the test
  \<open>if not text\<close> the text is a string, so the \<open>None\<close> branch of the \<open>case\<close> that follows
  it is never taken. The other converters use the text as a string at once.
  Assertions are enabled (no \<open>-O\<close>).
\<close>

fun truthy :: "string option \<Rightarrow> bool" where
  "truthy None = False"
| "truthy (Some s) = (s \<noteq> [])"

definition parse_optional :: "(string \<Rightarrow> exn + 'a) \<Rightarrow> string option \<Rightarrow> exn + 'a option" where
  "parse_optional parse_type text =
     (let text = (if truthy text then map_option str_strip text else text)
      in if \<not> truthy text then Inr None
         else case text of
                None \<Rightarrow> Inr None
              | Some s \<Rightarrow> map_sum id Some (parse_type s))"

text \<open>
  The list comprehension \<open>[parse_type(texti.strip()) for texti in parts]\<close>: the items are
  converted from left to right, and the first exception ends the evaluation.
\<close>

fun convert_parts :: "(string \<Rightarrow> exn + 'a) \<Rightarrow> string list \<Rightarrow> exn + 'a list" where
  "convert_parts parse_type [] = Inr []"
| "convert_parts parse_type (texti # rest) =
     (case parse_type (str_strip texti) of
        Inl e \<Rightarrow> Inl e
      | Inr v \<Rightarrow> map_sum id ((#) v) (convert_parts parse_type rest))"

definition parse_list0 :: "(string \<Rightarrow> exn + 'a) \<Rightarrow> string \<Rightarrow> string option \<Rightarrow> exn + 'a list" where
  "parse_list0 parse_type listsep text =
     (let text = (if truthy text then map_option str_strip text else text)
      in if \<not> truthy text then Inr []
         else case text of
                None \<Rightarrow> Inr []
              | Some s \<Rightarrow>
                  (case str_split listsep s of
                     Inl e \<Rightarrow> Inl e
                   | Inr parts \<Rightarrow> convert_parts parse_type parts))"

definition parse_list :: "(string \<Rightarrow> exn + 'a) \<Rightarrow> string \<Rightarrow> string \<Rightarrow> exn + 'a list" where
  "parse_list parse_type listsep text =
     (case str_split listsep text of
        Inl e \<Rightarrow> Inl e
      | Inr parts \<Rightarrow> convert_parts parse_type parts)"

text \<open>
  \<open>parse_enum\<close>: \<open>mappings\<close> is a dict with string keys. \<open>enum_key\<close> is the value of
  the local \<open>text\<close> at the subscript \<open>mappings[text]\<close>, which raises \<open>KeyError(text)\<close>
  on a missing key.
\<close>

definition enum_key :: "(string \<rightharpoonup> 'v) \<Rightarrow> string \<Rightarrow> string" where
  "enum_key mappings text = (if mappings text = None then str_lower text else text)"

definition parse_enum :: "(string \<rightharpoonup> 'v) \<Rightarrow> string \<Rightarrow> exn + 'v" where
  "parse_enum mappings text =
     (let text = enum_key mappings text
      in case mappings text of
           None \<Rightarrow> Inl (KeyError text)
         | Some v \<Rightarrow> Inr v)"

text \<open>
  \<open>parse_choice\<close> returns the text itself or what \<open>value_converter\<close> makes of it; the
  two have different types, told apart by \<open>Literal\<close> and \<open>Converted\<close>.
  \<open>value_converter\<close> is what the assertion of \<open>make_choice\<close> (line 186) admits: \<open>None\<close>
  or a callable object. A callable object has a truth value, the result of \<open>bool(obj)\<close>:
  true for every function, lambda and method, and false for an instance whose class
  defines \<open>__bool__\<close> or \<open>__len__\<close> so. \<open>parse_choice\<close> tests \<open>if value_converter:\<close>,
  the truth value, not \<open>is not None\<close>; behind a true test the converter is an object, so
  the \<open>None\<close> branch of the \<open>case\<close> that follows it is never taken.
\<close>

datatype 'a choice_value = Literal string | Converted 'a

datatype 'a callable = Callable (truth_value: bool) (call: "string \<Rightarrow> exn + 'a")

fun converter_truthy :: "'a callable option \<Rightarrow> bool" where
  "converter_truthy None = False"
| "converter_truthy (Some f) = truth_value f"

definition parse_choice ::
  "string list \<Rightarrow> 'a callable option \<Rightarrow> string \<Rightarrow> exn + 'a choice_value" where
  "parse_choice choices value_converter text =
     (if text \<notin> set choices then Inl AssertionError
      else if converter_truthy value_converter then
        (case value_converter of
           None \<Rightarrow> Inr (Literal text)
         | Some f \<Rightarrow> map_sum id Converted (call f text))
      else Inr (Literal text))"

text \<open>\<open>list.index(x)\<close>: the index of the first element equal to \<open>x\<close>, else \<open>ValueError\<close>.\<close>

fun list_index :: "'a list \<Rightarrow> 'a \<Rightarrow> exn + nat" where
  "list_index [] x = Inl ValueError"
| "list_index (y # ys) x = (if y = x then Inr 0 else map_sum id Suc (list_index ys x))"

definition parse_choice2 :: "string list \<Rightarrow> string \<Rightarrow> exn + (nat \<times> string) option" where
  "parse_choice2 choices text =
     (if text \<notin> set choices then Inl AssertionError
      else if text = [] then Inr None
      else case list_index choices text of
             Inl e \<Rightarrow> Inl e
           | Inr index \<Rightarrow> Inr (Some (index, text)))"

section \<open>Facts about the string operations\<close>

lemma lower_char_idem: "lower_char (lower_char c) = lower_char c"
  by (auto simp: lower_char_def Let_def)

lemma str_lower_idem: "str_lower (str_lower s) = str_lower s"
  by (simp add: str_lower_def lower_char_idem)

lemma str_strip_Nil: "str_strip [] = []"
  by (simp add: str_strip_def str_rstrip_def str_lstrip_def)

lemma str_strip_Nil_iff: "str_strip t = [] \<longleftrightarrow> (\<forall>c\<in>set t. isspace c)"
proof
  assume "str_strip t = []"
  then have "dropWhile isspace (rev (dropWhile isspace t)) = []"
    by (simp add: str_strip_def str_rstrip_def str_lstrip_def)
  then have "\<forall>c\<in>set (dropWhile isspace t). isspace c"
    by simp
  then have "dropWhile isspace t = []"
    by (metis hd_dropWhile hd_in_set)
  then show "\<forall>c\<in>set t. isspace c"
    by simp
next
  assume "\<forall>c\<in>set t. isspace c"
  then show "str_strip t = []"
    by (auto simp: str_strip_def str_rstrip_def str_lstrip_def dest: set_dropWhileD)
qed

lemma split_pieces_Nil: "sep \<noteq> [] \<Longrightarrow> split_pieces sep [] = ['''']"
  by (simp add: split_pieces.simps [of sep "[]"])

lemma list_index_first:
  "i < length xs \<Longrightarrow> xs ! i \<notin> set (take i xs) \<Longrightarrow> list_index xs (xs ! i) = Inr i"
proof (induction xs arbitrary: i)
  case Nil
  then show ?case by simp
next
  case (Cons y ys)
  show ?case
  proof (cases i)
    case 0
    then show ?thesis by simp
  next
    case (Suc n)
    with Cons.prems have "n < length ys" and "ys ! n \<notin> set (take n ys)" and "y \<noteq> ys ! n"
      by auto
    with Cons.IH [of n] Suc show ?thesis by simp
  qed
qed

subsection \<open>Searching, splitting and joining\<close>

lemma prefix_append_short:
  "prefix xs (ys @ zs) \<Longrightarrow> length xs \<le> length ys \<Longrightarrow> prefix xs ys"
  by (auto simp: prefix_append dest: prefix_length_le)

lemma str_find_prefix: "prefix sub s \<Longrightarrow> str_find sub s = Some 0"
  by (cases s) simp_all

lemma str_find_past_sep:
  "str_find sep (a @ sep) = Some (length a) \<Longrightarrow> str_find sep (a @ sep @ r) = Some (length a)"
proof (induction a)
  case Nil
  then show ?case by (simp add: str_find_prefix)
next
  case (Cons c a)
  from Cons.prems have np: "\<not> prefix sep (c # a @ sep)" and "str_find sep (a @ sep) = Some (length a)"
    by (auto split: if_splits)
  then have ih: "str_find sep (a @ sep @ r) = Some (length a)"
    using Cons.IH by simp
  have "\<not> prefix sep ((c # a @ sep) @ r)"
  proof
    assume "prefix sep ((c # a @ sep) @ r)"
    moreover have "length sep \<le> length (c # a @ sep)" by simp
    ultimately have "prefix sep (c # a @ sep)" by (rule prefix_append_short)
    with np show False by simp
  qed
  with ih show ?case by simp
qed

lemma str_find_item_None:
  "str_find sep (a @ sep) = Some (length a) \<Longrightarrow> sep \<noteq> [] \<Longrightarrow> str_find sep a = None"
proof (induction a)
  case Nil
  then show ?case by simp
next
  case (Cons c a)
  from Cons.prems have np: "\<not> prefix sep (c # a @ sep)" and "str_find sep (a @ sep) = Some (length a)"
    by (auto split: if_splits)
  with Cons have "str_find sep a = None" by simp
  moreover from np have "\<not> prefix sep (c # a)"
    by (metis append_Cons prefix_prefix)
  ultimately show ?case by simp
qed

lemma str_find_empty_sep: "str_find [] s = Some 0"
  by (cases s) simp_all

lemma split_pieces_None: "str_find sep s = None \<Longrightarrow> split_pieces sep s = [s]"
  by (simp add: split_pieces.simps [of sep s])

lemma split_pieces_Some:
  "str_find sep s = Some i \<Longrightarrow> sep \<noteq> [] \<Longrightarrow>
     split_pieces sep s = take i s # split_pieces sep (drop (i + length sep) s)"
  by (simp add: split_pieces.simps [of sep s])

lemma split_pieces_join:
  "sep \<noteq> [] \<Longrightarrow> items \<noteq> [] \<Longrightarrow>
   \<forall>a\<in>set (butlast items). str_find sep (a @ sep) = Some (length a) \<Longrightarrow>
   str_find sep (last items) = None \<Longrightarrow>
     split_pieces sep (str_join sep items) = items"
proof (induction sep items rule: str_join.induct)
  case (1 sep)
  then show ?case by simp
next
  case (2 sep x)
  then show ?case by (simp add: split_pieces_None)
next
  case (3 sep x y ys)
  from "3.prems" have "str_find sep (x @ sep) = Some (length x)" by simp
  then have "str_find sep (x @ sep @ str_join sep (y # ys)) = Some (length x)"
    by (rule str_find_past_sep)
  with \<open>sep \<noteq> []\<close> have "split_pieces sep (str_join sep (x # y # ys))
      = x # split_pieces sep (str_join sep (y # ys))"
    by (simp add: split_pieces_Some)
  moreover have "split_pieces sep (str_join sep (y # ys)) = y # ys"
    using "3.prems" by (intro "3.IH") auto
  ultimately show ?case by simp
qed


lemma str_find_suffix_None: "str_find sep (u @ s) = None \<Longrightarrow> str_find sep s = None"
  by (induction u) (auto split: if_splits)

lemma str_find_prefix_None: "str_find sep (p @ q) = None \<Longrightarrow> str_find sep p = None"
proof (induction p)
  case Nil
  then show ?case by (cases "sep = []") (simp_all add: str_find_empty_sep)
next
  case (Cons c p)
  from Cons.prems have np: "\<not> prefix sep (c # p @ q)" and "str_find sep (p @ q) = None"
    by (auto split: if_splits)
  with Cons.IH have "str_find sep p = None" by simp
  moreover from np have "\<not> prefix sep (c # p)"
    by (metis append_Cons prefix_prefix)
  ultimately show ?case by simp
qed

lemma nonblank_has_text: "str_strip a \<noteq> [] \<Longrightarrow> \<exists>x\<in>set a. \<not> isspace x"
  using str_strip_Nil_iff [of a] by blast

lemma lstrip_decomp: "a = takeWhile isspace a @ str_lstrip a"
  by (simp add: str_lstrip_def)

lemma rstrip_decomp: "c = str_rstrip c @ rev (takeWhile isspace (rev c))"
proof -
  have "str_rstrip c @ rev (takeWhile isspace (rev c))
      = rev (takeWhile isspace (rev c) @ dropWhile isspace (rev c))"
    by (simp only: str_rstrip_def rev_append)
  also have "\<dots> = rev (rev c)"
    by (simp only: takeWhile_dropWhile_id)
  finally show ?thesis by simp
qed

lemma lstrip_append: "str_strip a \<noteq> [] \<Longrightarrow> str_lstrip (a @ r) = str_lstrip a @ r"
  using nonblank_has_text [of a] by (auto simp: str_lstrip_def dropWhile_append1)

lemma rstrip_append: "str_strip c \<noteq> [] \<Longrightarrow> str_rstrip (l @ c) = l @ str_rstrip c"
  using nonblank_has_text [of c] by (auto simp: str_rstrip_def dropWhile_append1)

lemma strip_lstrip: "str_strip (str_lstrip a) = str_strip a"
  by (simp add: str_strip_def str_lstrip_def)

lemma rstrip_Cons: "\<not> isspace h \<Longrightarrow> str_rstrip (h # y) = h # str_rstrip y"
  by (simp add: str_rstrip_def dropWhile_append)

lemma lstrip_rstrip: "str_lstrip (str_rstrip x) = str_rstrip (str_lstrip x)"
proof (cases "\<forall>c\<in>set x. isspace c")
  case True
  then have "dropWhile isspace x = []" and "dropWhile isspace (rev x) = []"
    by simp_all
  then show ?thesis
    by (simp only: str_lstrip_def str_rstrip_def rev.simps dropWhile.simps)
next
  case False
  let ?w = "takeWhile isspace x" and ?y = "str_lstrip x"
  from False have "?y \<noteq> []" by (simp add: str_lstrip_def)
  then obtain h y' where y: "?y = h # y'" by (cases ?y) auto
  have "\<not> isspace (hd (dropWhile isspace x))"
    using \<open>?y \<noteq> []\<close> hd_dropWhile [of isspace x] by (simp add: str_lstrip_def)
  with y have h: "\<not> isspace h" by (simp add: str_lstrip_def)
  have "str_strip ?y \<noteq> []"
    using False str_strip_Nil_iff [of x] by (simp add: strip_lstrip)
  then have "str_rstrip (?w @ ?y) = ?w @ str_rstrip ?y" by (rule rstrip_append)
  then have "str_rstrip x = ?w @ str_rstrip ?y" by (simp add: str_lstrip_def)
  then have "str_lstrip (str_rstrip x) = str_lstrip (?w @ str_rstrip ?y)" by simp
  also have "\<dots> = str_lstrip (str_rstrip ?y)"
  proof -
    have "\<And>c. c \<in> set ?w \<Longrightarrow> isspace c" by (rule set_takeWhileD [THEN conjunct2])
    then show ?thesis by (simp only: str_lstrip_def [of "_ @ _"] dropWhile_append2) (simp add: str_lstrip_def)
  qed
  also have "\<dots> = str_rstrip ?y"
  proof -
    from h have "str_rstrip (h # y') = h # str_rstrip y'" by (rule rstrip_Cons)
    moreover from h have "str_lstrip (h # str_rstrip y') = h # str_rstrip y'"
      by (simp add: str_lstrip_def)
    ultimately show ?thesis by (simp only: y)
  qed
  finally show ?thesis .
qed

lemma rstrip_idem: "str_rstrip (str_rstrip x) = str_rstrip x"
  by (simp add: str_rstrip_def)

lemma strip_rstrip: "str_strip (str_rstrip c) = str_strip c"
  by (simp add: str_strip_def lstrip_rstrip rstrip_idem)

lemma strip_idem: "str_strip (str_strip a) = str_strip a"
proof -
  have "str_strip (str_strip a) = str_strip (str_rstrip (str_lstrip a))"
    by (simp only: str_strip_def [of a])
  also have "\<dots> = str_strip (str_lstrip a)" by (rule strip_rstrip)
  also have "\<dots> = str_strip a" by (rule strip_lstrip)
  finally show ?thesis .
qed

lemma convert_parts_cong:
  "map str_strip xs = map str_strip ys \<Longrightarrow> convert_parts base xs = convert_parts base ys"
proof (induction xs arbitrary: ys)
  case Nil
  then show ?case by simp
next
  case (Cons x xs)
  from Cons.prems obtain y ys' where ys: "ys = y # ys'"
    and hd: "str_strip x = str_strip y" and tl: "map str_strip xs = map str_strip ys'"
    by (cases ys) auto
  from tl have "convert_parts base xs = convert_parts base ys'" by (rule Cons.IH)
  with ys hd show ?case by (simp split: sum.splits)
qed


lemma join_Cons:
  "str_join sep (a # rest) = a @ (if rest = [] then [] else sep @ str_join sep rest)"
  by (cases rest) simp_all

lemma join_snoc:
  "str_join sep (xs @ [c]) = (if xs = [] then [] else str_join sep xs @ sep) @ c"
  by (induction sep xs rule: str_join.induct) simp_all

lemma find_None_sep_nonempty: "str_find sep a = None \<Longrightarrow> sep \<noteq> []"
  by (auto simp: str_find_empty_sep)

lemma str_find_strip_None:
  assumes "str_find sep a = None"
  shows "str_find sep (str_lstrip a) = None" and "str_find sep (str_rstrip a) = None"
    and "str_find sep (str_strip a) = None"
proof -
  from assms have "str_find sep (takeWhile isspace a @ str_lstrip a) = None"
    by (simp only: lstrip_decomp [symmetric])
  then show l: "str_find sep (str_lstrip a) = None" by (rule str_find_suffix_None)
  have r: "str_find sep (str_rstrip b) = None" if "str_find sep b = None" for b
  proof -
    from that have "str_find sep (str_rstrip b @ rev (takeWhile isspace (rev b))) = None"
      by (simp only: rstrip_decomp [symmetric])
    then show ?thesis by (rule str_find_prefix_None)
  qed
  from assms show "str_find sep (str_rstrip a) = None" by (rule r)
  from l show "str_find sep (str_strip a) = None" unfolding str_strip_def by (rule r)
qed

lemma split_strip_join:
  assumes ok: "\<forall>b\<in>set (a # rest). str_strip b \<noteq> [] \<and> str_find sep b = None"
    and inner: "\<forall>b\<in>set (butlast (str_lstrip a # rest)). str_find sep (b @ sep) = Some (length b)"
  shows "map str_strip (split_pieces sep (str_strip (str_join sep (a # rest))))
    = map str_strip (a # rest)"
proof -
  from ok have a: "str_strip a \<noteq> []" "str_find sep a = None"
    by simp_all
  then have sep: "sep \<noteq> []" by (simp add: find_None_sep_nonempty)
  show ?thesis
  proof (cases rest rule: rev_cases)
    case Nil
    from a(2) have "str_find sep (str_strip a) = None" by (rule str_find_strip_None)
    then have "split_pieces sep (str_strip a) = [str_strip a]" by (rule split_pieces_None)
    with Nil show ?thesis by (simp add: strip_idem)
  next
    case (snoc mid c)
    from ok snoc have c: "str_strip c \<noteq> []" "str_find sep c = None"
      by simp_all
    let ?items' = "(str_lstrip a # mid) @ [str_rstrip c]"
    have "str_lstrip (str_join sep (a # rest)) = str_lstrip a @ sep @ str_join sep (mid @ [c])"
      using a(1) snoc by (simp add: join_Cons lstrip_append)
    also have "\<dots> = str_join sep ((str_lstrip a # mid) @ [c])"
      by (simp add: join_Cons)
    also have "\<dots> = (str_join sep (str_lstrip a # mid) @ sep) @ c"
      by (simp only: join_snoc) simp
    finally have "str_strip (str_join sep (a # rest))
        = str_rstrip ((str_join sep (str_lstrip a # mid) @ sep) @ c)"
      by (simp only: str_strip_def)
    also from c(1) have "\<dots> = (str_join sep (str_lstrip a # mid) @ sep) @ str_rstrip c"
      by (rule rstrip_append)
    also have "\<dots> = str_join sep ?items'"
      by (simp only: join_snoc) simp
    finally have strip: "str_strip (str_join sep (a # rest)) = str_join sep ?items'" .
    from inner snoc
    have butlast: "\<forall>b\<in>set (butlast ?items'). str_find sep (b @ sep) = Some (length b)"
      by (simp add: butlast_append)
    from c(2) have "str_find sep (str_rstrip c) = None" by (rule str_find_strip_None)
    then have last: "str_find sep (last ?items') = None" by simp
    have "split_pieces sep (str_join sep ?items') = ?items'"
      using sep _ butlast last by (rule split_pieces_join) simp
    with strip snoc show ?thesis
      by (simp add: strip_lstrip strip_rstrip)
  qed
qed

lemma join_nonblank:
  assumes ok: "\<forall>a\<in>set items. str_strip a \<noteq> []"
    and ne: "items \<noteq> []"
  shows "str_strip (str_join sep items) \<noteq> []"
proof -
  from ne obtain a rest where items: "items = a # rest" by (cases items) auto
  with ok have "str_strip a \<noteq> []" by simp
  then obtain x where "x \<in> set a" and "\<not> isspace x"
    using nonblank_has_text by blast
  then have "\<exists>x\<in>set (str_join sep items). \<not> isspace x"
    using items by (auto simp: join_Cons)
  then show ?thesis using str_strip_Nil_iff [of "str_join sep items"] by blast
qed

lemma str_find_restrict:
  "str_find sep (x @ y) = Some i \<Longrightarrow> i + length sep \<le> length x \<Longrightarrow> str_find sep x = Some i"
proof (induction x arbitrary: i)
  case Nil
  then show ?case by simp
next
  case (Cons c x)
  show ?case
  proof (cases "prefix sep (c # x @ y)")
    case True
    with Cons.prems have i: "i = 0" by simp
    with Cons.prems(2) have "length sep \<le> length (c # x)" by simp
    with True have "prefix sep (c # x)"
      using prefix_append_short [of sep "c # x" y] by simp
    with i show ?thesis by simp
  next
    case False
    with Cons.prems obtain j where j: "str_find sep (x @ y) = Some j" "i = Suc j"
      by auto
    with Cons.prems(2) have "j + length sep \<le> length x" by simp
    with j(1) have "str_find sep x = Some j" by (rule Cons.IH)
    moreover from False have "\<not> prefix sep (c # x)"
      by (metis append_Cons prefix_prefix)
    ultimately show ?thesis using j(2) by simp
  qed
qed

lemma split_pieces_join_conv:
  "sep \<noteq> [] \<Longrightarrow> split_pieces sep (str_join sep items) = items \<Longrightarrow>
     \<forall>a\<in>set (butlast items). str_find sep (a @ sep) = Some (length a)"
proof (induction sep items rule: str_join.induct)
  case (1 sep)
  then show ?case by simp
next
  case (2 sep x)
  then show ?case by simp
next
  case (3 sep x y ys)
  let ?j = "str_join sep (y # ys)"
  let ?t = "x @ sep @ ?j"
  from "3.prems"(2) have split: "split_pieces sep ?t = x # y # ys" by simp
  obtain i where i: "str_find sep ?t = Some i"
  proof (cases "str_find sep ?t")
    case None
    then have "split_pieces sep ?t = [?t]" by (rule split_pieces_None)
    with split show ?thesis by simp
  next
    case (Some i)
    then show ?thesis by (rule that)
  qed
  from i \<open>sep \<noteq> []\<close>
  have "split_pieces sep ?t = take i ?t # split_pieces sep (drop (i + length sep) ?t)"
    by (rule split_pieces_Some)
  with split have hd: "take i ?t = x" and tl: "split_pieces sep (drop (i + length sep) ?t) = y # ys"
    by simp_all
  from hd have "length (take i ?t) = length x" by simp
  with \<open>sep \<noteq> []\<close> have len: "i = length x" by (simp add: min_def split: if_splits)
  with tl have "split_pieces sep ?j = y # ys" by simp
  with \<open>sep \<noteq> []\<close> have rest: "\<forall>a\<in>set (butlast (y # ys)). str_find sep (a @ sep) = Some (length a)"
    by (rule "3.IH")
  from i len have "str_find sep ((x @ sep) @ ?j) = Some (length x)" by simp
  then have "str_find sep (x @ sep) = Some (length x)"
    by (rule str_find_restrict) simp
  with rest show ?case by simp
qed

lemma convert_parts_Inr_iff:
  "convert_parts base parts = Inr vs \<longleftrightarrow> list_all2 (\<lambda>p v. base (str_strip p) = Inr v) parts vs"
proof (induction parts arbitrary: vs)
  case Nil
  then show ?case by auto
next
  case (Cons p parts)
  show ?case
  proof (cases "base (str_strip p)")
    case (Inl e)
    then show ?thesis by (auto simp: list_all2_Cons1)
  next
    case (Inr v)
    show ?thesis
    proof (cases "convert_parts base parts")
      case (Inl e)
      with Inr Cons.IH show ?thesis by (auto simp: list_all2_Cons1)
    next
      case (Inr ws)
      with \<open>base (str_strip p) = Inr v\<close> Cons.IH show ?thesis
        by (auto simp: list_all2_Cons1)
    qed
  qed
qed

lemma split_pieces_nonempty: "split_pieces sep s \<noteq> []"
  by (simp add: split_pieces.simps [of sep s] split: option.splits)

lemma split_pieces_Cons:
  assumes "sep \<noteq> []" and "\<not> prefix sep (c # s)"
  shows "split_pieces sep (c # s)
    = (c # hd (split_pieces sep s)) # tl (split_pieces sep s)"
proof (cases "str_find sep s")
  case None
  with assms have "str_find sep (c # s) = None" by simp
  with None show ?thesis by (simp add: split_pieces_None)
next
  case (Some i)
  with assms have "str_find sep (c # s) = Some (Suc i)" by simp
  with Some assms(1) show ?thesis by (simp add: split_pieces_Some)
qed

lemma prefix_hd: "prefix sep (c # s) \<Longrightarrow> sep \<noteq> [] \<Longrightarrow> hd sep = c"
  by (cases sep) simp_all

lemma split_pieces_leading_ws:
  assumes "sep \<noteq> []" and "\<not> isspace (hd sep)" and "\<forall>c\<in>set w. isspace c"
  shows "split_pieces sep (w @ s)
    = (w @ hd (split_pieces sep s)) # tl (split_pieces sep s)"
  using assms(3)
proof (induction w)
  case Nil
  then show ?case by (simp add: split_pieces_nonempty)
next
  case (Cons c w)
  then have "isspace c" by simp
  with assms(1,2) have "\<not> prefix sep (c # w @ s)"
    by (auto dest: prefix_hd)
  with assms(1) have "split_pieces sep (c # w @ s)
      = (c # hd (split_pieces sep (w @ s))) # tl (split_pieces sep (w @ s))"
    by (rule split_pieces_Cons)
  with Cons show ?case by simp
qed

lemma prefix_trailing_ws:
  assumes "sep \<noteq> []" and "last sep \<notin> set w"
  shows "prefix sep (s @ w) \<longleftrightarrow> prefix sep s"
proof
  assume "prefix sep (s @ w)"
  then consider "prefix sep s" | us where "sep = s @ us" and "prefix us w"
    by (auto simp: prefix_append)
  then show "prefix sep s"
  proof cases
    case 1
    then show ?thesis .
  next
    case 2
    show ?thesis
    proof (cases "us = []")
      case True
      with 2 show ?thesis by simp
    next
      case False
      with 2 have "last sep = last us" by simp
      moreover from False have "last us \<in> set us" by simp
      moreover from 2 have "set us \<subseteq> set w" by (simp add: set_mono_prefix)
      ultimately show ?thesis using assms(2) by auto
    qed
  qed
next
  assume "prefix sep s"
  then show "prefix sep (s @ w)" by (rule prefix_prefix)
qed

lemma str_find_trailing_ws:
  assumes "sep \<noteq> []" and "last sep \<notin> set w"
  shows "str_find sep (s @ w) = str_find sep s"
proof (induction s)
  case Nil
  from assms have "str_find sep w = None"
  proof (induction w)
    case Nil
    then show ?case by simp
  next
    case (Cons c w)
    have "\<not> prefix sep (c # w)"
    proof
      assume "prefix sep (c # w)"
      then have "set sep \<subseteq> set (c # w)" by (rule set_mono_prefix)
      moreover from \<open>sep \<noteq> []\<close> have "last sep \<in> set sep" by simp
      ultimately show False using Cons.prems(2) by auto
    qed
    with Cons show ?case by simp
  qed
  with assms(1) show ?case by simp
next
  case (Cons c s)
  from assms have "prefix sep ((c # s) @ w) \<longleftrightarrow> prefix sep (c # s)"
    by (rule prefix_trailing_ws)
  with Cons show ?case by simp
qed

lemma split_pieces_trailing_ws:
  assumes "sep \<noteq> []" and "last sep \<notin> set w"
  shows "split_pieces sep (s @ w)
    = butlast (split_pieces sep s) @ [last (split_pieces sep s) @ w]"
  using assms
proof (induction sep s rule: split_pieces.induct)
  case (1 sep s)
  from "1.prems" have find: "str_find sep (s @ w) = str_find sep s"
    by (rule str_find_trailing_ws)
  show ?case
  proof (cases "str_find sep s")
    case None
    with find show ?thesis by (simp add: split_pieces_None)
  next
    case (Some i)
    then have le: "i + length sep \<le> length s" by (rule str_find_bound)
    let ?rest = "drop (i + length sep) s"
    from Some "1.prems" have ih: "split_pieces sep (?rest @ w)
        = butlast (split_pieces sep ?rest) @ [last (split_pieces sep ?rest) @ w]"
      by (intro "1.IH")
    from Some find "1.prems"(1) have "split_pieces sep (s @ w)
        = take i (s @ w) # split_pieces sep (drop (i + length sep) (s @ w))"
      by (simp add: split_pieces_Some)
    also from le have "\<dots> = take i s # split_pieces sep (?rest @ w)" by simp
    finally have "split_pieces sep (s @ w)
        = take i s # butlast (split_pieces sep ?rest) @ [last (split_pieces sep ?rest) @ w]"
      using ih by simp
    moreover from Some "1.prems"(1)
    have "split_pieces sep s = take i s # split_pieces sep ?rest"
      by (rule split_pieces_Some)
    ultimately show ?thesis by (simp add: split_pieces_nonempty)
  qed
qed

lemma strip_leading_ws: "\<forall>c\<in>set w. isspace c \<Longrightarrow> str_strip (w @ p) = str_strip p"
  by (simp add: str_strip_def str_lstrip_def)

lemma rstrip_trailing_ws: "\<forall>c\<in>set w. isspace c \<Longrightarrow> str_rstrip (p @ w) = str_rstrip p"
  using dropWhile_append2 [of "rev w" isspace "rev p"] by (simp add: str_rstrip_def)

lemma strip_trailing_ws:
  assumes "\<forall>c\<in>set w. isspace c"
  shows "str_strip (p @ w) = str_strip p"
proof -
  have "str_strip (p @ w) = str_lstrip (str_rstrip (p @ w))"
    by (simp only: str_strip_def lstrip_rstrip)
  also from assms have "\<dots> = str_lstrip (str_rstrip p)"
    by (simp only: rstrip_trailing_ws)
  also have "\<dots> = str_strip p"
    by (simp only: str_strip_def lstrip_rstrip)
  finally show ?thesis .
qed

lemma map_strip_split_strip:
  assumes "sep \<noteq> []" and "\<not> isspace (hd sep)" and "\<not> isspace (last sep)"
  shows "map str_strip (split_pieces sep (str_strip t)) = map str_strip (split_pieces sep t)"
proof -
  let ?w1 = "takeWhile isspace t" and ?l = "str_lstrip t"
  let ?w2 = "rev (takeWhile isspace (rev ?l))"
  have w1: "\<forall>c\<in>set ?w1. isspace c" by (auto dest: set_takeWhileD)
  have w2: "\<forall>c\<in>set ?w2. isspace c" by (auto dest: set_takeWhileD)
  with assms(3) have notin: "last sep \<notin> set ?w2" by blast
  let ?ps = "split_pieces sep (str_strip t)"
  have l: "?l = str_strip t @ ?w2"
    unfolding str_strip_def by (rule rstrip_decomp)
  have ps: "?ps \<noteq> []" by (rule split_pieces_nonempty)
  from assms(1) notin have "split_pieces sep (str_strip t @ ?w2) = butlast ?ps @ [last ?ps @ ?w2]"
    by (rule split_pieces_trailing_ws)
  with l have sl: "split_pieces sep ?l = butlast ?ps @ [last ?ps @ ?w2]" by simp
  have "map str_strip (split_pieces sep ?l) = map str_strip (butlast ?ps @ [last ?ps])"
    using w2 by (simp only: sl map_append list.map strip_trailing_ws)
  with ps have inner: "map str_strip (split_pieces sep ?l) = map str_strip ?ps" by simp
  let ?qs = "split_pieces sep ?l"
  have qs: "?qs \<noteq> []" by (rule split_pieces_nonempty)
  have "t = ?w1 @ ?l" by (rule lstrip_decomp)
  then have "split_pieces sep t = split_pieces sep (?w1 @ ?l)" by simp
  also from assms(1,2) w1 have "\<dots> = (?w1 @ hd ?qs) # tl ?qs"
    by (rule split_pieces_leading_ws)
  finally have "map str_strip (split_pieces sep t) = str_strip (hd ?qs) # map str_strip (tl ?qs)"
    using w1 by (simp only: list.map strip_leading_ws)
  also from qs have "\<dots> = map str_strip ?qs" by (cases ?qs) simp_all
  finally show ?thesis using inner by simp
qed

lemma str_find_single_char:
  "str_find [c] a = None \<Longrightarrow> str_find [c] (a @ [c]) = Some (length a)"
  by (induction a) (auto split: if_splits)

section \<open>Pattern constructors\<close>

text \<open>
  C9. For every inner pattern \<open>p\<close> and separator \<open>sep\<close> the three pattern constructors
  succeed and return the formulas \<open>(p)?\<close>, \<open>(p)?(\<backslash>s*sep\<backslash>s*(p))*\<close> and
  \<open>(p)(\<backslash>s*sep\<backslash>s*(p))*\<close>, with \<open>p\<close> and \<open>sep\<close> put in as they are: nothing
  about \<open>p\<close> is checked, and a \<open>%\<close> inside \<open>p\<close> or \<open>sep\<close> is not read as a directive.
\<close>

theorem cardinality_patterns:
  "make_zero_or_one_pattern p = Inr (''('' @ p @ '')?'') \<and>
   make_zero_or_more_pattern p sep =
     Inr (''('' @ p @ '')?('' @ [CHR 0x5C] @ ''s*'' @ sep @ [CHR 0x5C] @ ''s*('' @ p @ ''))*'') \<and>
   make_one_or_more_pattern p sep =
     Inr (''('' @ p @ '')('' @ [CHR 0x5C] @ ''s*'' @ sep @ [CHR 0x5C] @ ''s*('' @ p @ ''))*'')"
  by (simp add: make_zero_or_one_pattern_def make_zero_or_more_pattern_def
      make_one_or_more_pattern_def)

section \<open>The optional converter\<close>

text \<open>
  C6. \<open>parse_optional\<close> returns \<open>None\<close> on missing text and on text that is empty or all
  whitespace; on any other text it returns what the base converter returns (or raises)
  on the stripped text.
\<close>

theorem parse_optional_blank_or_base:
  "parse_optional base None = Inr None \<and>
   ((\<forall>c\<in>set t. isspace c) \<longrightarrow> parse_optional base (Some t) = Inr None) \<and>
   (\<not> (\<forall>c\<in>set t. isspace c) \<longrightarrow>
      parse_optional base (Some t) = map_sum id Some (base (str_strip t)))"
  using str_strip_Nil_iff [of t]
  by (auto simp: parse_optional_def Let_def)

text \<open>
  Witness for C6: the blank text of two spaces, and the text \<open>" 42 "\<close> with the base
  converter that returns its argument.
\<close>

theorem parse_optional_blank_or_base_witness:
  "parse_optional (Inr :: string \<Rightarrow> exn + string) (Some ''  '') = Inr None \<and>
   parse_optional (Inr :: string \<Rightarrow> exn + string) (Some '' 42 '') = Inr (Some ''42'')"
proof -
  have blank: "\<forall>c\<in>set ''  ''. isspace c" and nonblank: "\<not> (\<forall>c\<in>set '' 42 ''. isspace c)"
    by (simp_all add: isspace_def)
  have strip: "str_strip '' 42 '' = ''42''"
    by code_simp
  show ?thesis
    using parse_optional_blank_or_base [of "Inr :: string \<Rightarrow> exn + string" "''  ''"]
      parse_optional_blank_or_base [of "Inr :: string \<Rightarrow> exn + string" "'' 42 ''"]
      blank nonblank strip
    by simp
qed

section \<open>The list converters\<close>

text \<open>
  C7. \<open>parse_list\<close> has no case for blank text: on the empty string, with any separator
  that \<open>str.split\<close> accepts, the split gives the single piece \<open>""\<close>, which goes to the
  base converter; the result is the one-element list of what the base converter returns
  for \<open>""\<close> (or the exception it raises), never the empty list.
\<close>

theorem parse_list_empty_text:
  "sep \<noteq> [] \<Longrightarrow>
     str_split sep [] = Inr [''''] \<and>
     parse_list base sep [] = (case base [] of Inl e \<Rightarrow> Inl e | Inr v \<Rightarrow> Inr [v])"
  by (simp add: parse_list_def str_split_def split_pieces_Nil str_strip_Nil split: sum.splits)

text \<open>Witness for C7: the default separator and the base converter that returns its argument.\<close>

theorem parse_list_empty_text_witness:
  "str_split '','' [] = Inr [''''] \<and>
   parse_list (Inr :: string \<Rightarrow> exn + string) '','' [] = Inr ['''']"
  using parse_list_empty_text [of "'',''" "Inr :: string \<Rightarrow> exn + string"]
  by simp

text \<open>
  C5, as stated, fails: \<open>parse_list0\<close> strips the text before it splits it, and with a
  separator that begins or ends with whitespace that is not the same as splitting the text
  itself. With the separator \<open>" "\<close> the text \<open>"a "\<close> is converted to one item, while
  splitting \<open>"a "\<close> on \<open>" "\<close> gives the two parts \<open>"a"\<close> and \<open>""\<close>.
\<close>

theorem parse_list0_blank_or_split_counterexample:
  "parse_list0 (Inr :: string \<Rightarrow> exn + string) '' '' (Some ''a '') = Inr [''a''] \<and>
   str_split '' '' ''a '' = Inr [''a'', ''''] \<and>
   convert_parts (Inr :: string \<Rightarrow> exn + string) [''a'', ''''] = Inr [''a'', '''']"
  by code_simp

text \<open>
  C5, amended. \<open>parse_list0\<close> returns the empty list on missing text and on text that is
  empty or all whitespace. On any other text it returns the list obtained by splitting
  the stripped text on \<open>sep\<close>, stripping each part and converting each part with the base
  converter, from left to right (\<open>convert_parts\<close>; the first exception, or the
  \<open>ValueError\<close> of the empty separator, reaches the caller). When the separator neither
  begins nor ends with a whitespace character, as the default \<open>","\<close>, splitting the text
  itself gives the same result. Order and duplicates are kept: the conversion returns a
  list \<open>vs\<close> exactly when \<open>vs\<close> is as long as the list of parts and its item at each
  position is the base converter's result for the stripped part at that position.
\<close>

theorem parse_list0_blank_or_split:
  "parse_list0 base sep None = Inr [] \<and>
   ((\<forall>c\<in>set t. isspace c) \<longrightarrow> parse_list0 base sep (Some t) = Inr []) \<and>
   (\<not> (\<forall>c\<in>set t. isspace c) \<longrightarrow>
      parse_list0 base sep (Some t) =
        (case str_split sep (str_strip t) of
           Inl e \<Rightarrow> Inl e
         | Inr parts \<Rightarrow> convert_parts base parts)) \<and>
   (\<not> (\<forall>c\<in>set t. isspace c) \<longrightarrow> sep \<noteq> [] \<longrightarrow> \<not> isspace (hd sep) \<longrightarrow> \<not> isspace (last sep) \<longrightarrow>
      parse_list0 base sep (Some t) =
        (case str_split sep t of
           Inl e \<Rightarrow> Inl e
         | Inr parts \<Rightarrow> convert_parts base parts)) \<and>
   (convert_parts base ps = Inr vs \<longleftrightarrow>
      list_all2 (\<lambda>p v. base (str_strip p) = Inr v) ps vs)"
proof -
  have none: "parse_list0 base sep None = Inr []"
    by (simp add: parse_list0_def)
  have blank: "parse_list0 base sep (Some t) = Inr []" if "\<forall>c\<in>set t. isspace c"
    using that str_strip_Nil_iff [of t] by (auto simp: parse_list0_def Let_def)
  have nonblank: "parse_list0 base sep (Some t) =
        (case str_split sep (str_strip t) of
           Inl e \<Rightarrow> Inl e
         | Inr parts \<Rightarrow> convert_parts base parts)" if "\<not> (\<forall>c\<in>set t. isspace c)"
    using that str_strip_Nil_iff [of t] by (auto simp: parse_list0_def Let_def)
  have same: "parse_list0 base sep (Some t) =
        (case str_split sep t of
           Inl e \<Rightarrow> Inl e
         | Inr parts \<Rightarrow> convert_parts base parts)"
    if "\<not> (\<forall>c\<in>set t. isspace c)" and "sep \<noteq> []" and "\<not> isspace (hd sep)"
      and "\<not> isspace (last sep)"
  proof -
    from that(2-4)
    have "map str_strip (split_pieces sep (str_strip t)) = map str_strip (split_pieces sep t)"
      by (rule map_strip_split_strip)
    then have "convert_parts base (split_pieces sep (str_strip t))
        = convert_parts base (split_pieces sep t)"
      by (rule convert_parts_cong)
    with nonblank [OF that(1)] that(2) show ?thesis by (simp add: str_split_def)
  qed
  have order: "convert_parts base ps = Inr vs \<longleftrightarrow>
      list_all2 (\<lambda>p v. base (str_strip p) = Inr v) ps vs"
    by (rule convert_parts_Inr_iff)
  from none blank nonblank same order show ?thesis by blast
qed

text \<open>
  Witness for C5 amended: the default separator, the blank text of two spaces and the
  text \<open>" 1, 2 "\<close>, with the base converter that returns its argument.
\<close>

theorem parse_list0_blank_or_split_witness:
  "parse_list0 (Inr :: string \<Rightarrow> exn + string) '','' (Some ''  '') = Inr [] \<and>
   parse_list0 (Inr :: string \<Rightarrow> exn + string) '','' (Some '' 1, 2 '') = Inr [''1'', ''2''] \<and>
   str_split '','' '' 1, 2 '' = Inr ['' 1'', '' 2 '']"
proof -
  have blank: "\<forall>c\<in>set ''  ''. isspace c" and nonblank: "\<not> (\<forall>c\<in>set '' 1, 2 ''. isspace c)"
    and sep: "'','' \<noteq> []" "\<not> isspace (hd '','')" "\<not> isspace (last '','')"
    by (simp_all add: isspace_def)
  have split: "str_split '','' '' 1, 2 '' = Inr ['' 1'', '' 2 '']"
    and conv: "convert_parts (Inr :: string \<Rightarrow> exn + string) ['' 1'', '' 2 ''] = Inr [''1'', ''2'']"
    and split': "str_split '','' (str_strip '' 1, 2 '') = Inr [''1'', '' 2'']"
    and conv': "convert_parts (Inr :: string \<Rightarrow> exn + string) [''1'', '' 2''] = Inr [''1'', ''2'']"
    by code_simp+
  show ?thesis
    using parse_list0_blank_or_split [of "Inr :: string \<Rightarrow> exn + string" "'',''" "''  ''" "[]" "[]"]
      parse_list0_blank_or_split [of "Inr :: string \<Rightarrow> exn + string" "'',''" "'' 1, 2 ''" "[]" "[]"]
      blank nonblank sep split conv split' conv'
    by simp
qed

text \<open>
  C2, as stated, fails in three ways. A separator of several characters can begin inside
  an item and end inside the separator that follows it: \<open>"a"\<close> and \<open>"x"\<close> do not contain
  \<open>"aa"\<close>, but their join \<open>"aaax"\<close> is split into \<open>""\<close> and \<open>"ax"\<close>. The items are stripped
  before the base converter sees them: the item \<open>" x"\<close> comes back as the conversion of
  \<open>"x"\<close>. And \<open>parse_list\<close> turns the join of no items, the empty text, into one item.
\<close>

theorem list_roundtrip_counterexample:
  "str_strip ''a'' \<noteq> [] \<and> str_find ''aa'' ''a'' = None \<and>
   str_strip ''x'' \<noteq> [] \<and> str_find ''aa'' ''x'' = None \<and>
   parse_list (Inr :: string \<Rightarrow> exn + string) ''aa'' (str_join ''aa'' [''a'', ''x''])
     = Inr ['''', ''ax''] \<and>
   parse_list0 (Inr :: string \<Rightarrow> exn + string) ''aa'' (Some (str_join ''aa'' [''a'', ''x'']))
     = Inr ['''', ''ax''] \<and>
   str_strip '' x'' \<noteq> [] \<and> str_find '','' '' x'' = None \<and>
   parse_list (Inr :: string \<Rightarrow> exn + string) '','' (str_join '','' ['' x'']) = Inr [''x''] \<and>
   parse_list (Inr :: string \<Rightarrow> exn + string) '','' (str_join '','' ['' x'']) \<noteq> Inr ['' x''] \<and>
   parse_list (Inr :: string \<Rightarrow> exn + string) '','' (str_join '','' []) = Inr ['''']"
  by code_simp

text \<open>
  C2, amended. Let every item be non-empty after stripping and contain no occurrence of
  the separator \<open>s\<close>, as the claim has it, and let \<open>s\<close> not begin inside an item that has a
  separator behind it, that is inside any item but the last: in such an item followed by
  \<open>s\<close> the first occurrence of \<open>s\<close> is the one at the end (\<open>str_find\<close> gives the length of
  the item; for a separator of one character this adds nothing, \<open>str_find_single_char\<close>).
  Then joining at least one item with \<open>s\<close> and converting with \<open>parse_list\<close> yields the base
  conversions of the stripped items in input order (\<open>convert_parts\<close>: the list of the
  results, or the first exception). The added condition is exactly the one under which
  \<open>str.split\<close> gives the items back from their join. \<open>parse_list0\<close> yields the same, for
  no items as well; it strips the joined text first, so for it the added condition is
  asked of the first item without its leading whitespace.
\<close>

theorem list_roundtrip:
  "\<forall>b\<in>set items. str_strip b \<noteq> [] \<and> str_find sep b = None \<Longrightarrow>
     (items \<noteq> [] \<longrightarrow>
        (\<forall>b\<in>set (butlast items). str_find sep (b @ sep) = Some (length b)) \<longrightarrow>
          parse_list base sep (str_join sep items) = convert_parts base items) \<and>
     (items \<noteq> [] \<longrightarrow>
        (str_split sep (str_join sep items) = Inr items \<longleftrightarrow>
           (\<forall>b\<in>set (butlast items). str_find sep (b @ sep) = Some (length b)))) \<and>
     (items = [] \<longrightarrow>
        parse_list0 base sep (Some (str_join sep items)) = convert_parts base items) \<and>
     (items = a # rest \<longrightarrow>
        (\<forall>b\<in>set (butlast (str_lstrip a # rest)). str_find sep (b @ sep) = Some (length b)) \<longrightarrow>
          parse_list0 base sep (Some (str_join sep items)) = convert_parts base items)"
proof -
  assume ok: "\<forall>b\<in>set items. str_strip b \<noteq> [] \<and> str_find sep b = None"
  have sep: "sep \<noteq> []" if "items \<noteq> []"
  proof -
    from that obtain b where "b \<in> set items" by (cases items) auto
    with ok have "str_find sep b = None" by simp
    then show ?thesis by (rule find_None_sep_nonempty)
  qed
  have last: "str_find sep (last items) = None" if "items \<noteq> []"
    using ok that by simp
  have split: "split_pieces sep (str_join sep items) = items"
    if "items \<noteq> []" and "\<forall>b\<in>set (butlast items). str_find sep (b @ sep) = Some (length b)"
    using sep [OF that(1)] that last [OF that(1)] by (rule split_pieces_join)
  have one: "parse_list base sep (str_join sep items) = convert_parts base items"
    if "items \<noteq> []" and "\<forall>b\<in>set (butlast items). str_find sep (b @ sep) = Some (length b)"
    using split [OF that] sep [OF that(1)] by (simp add: parse_list_def str_split_def)
  have exact: "str_split sep (str_join sep items) = Inr items \<longleftrightarrow>
      (\<forall>b\<in>set (butlast items). str_find sep (b @ sep) = Some (length b))"
    if "items \<noteq> []"
  proof
    assume "str_split sep (str_join sep items) = Inr items"
    with sep [OF that] have "split_pieces sep (str_join sep items) = items"
      by (simp add: str_split_def)
    with sep [OF that]
    show "\<forall>b\<in>set (butlast items). str_find sep (b @ sep) = Some (length b)"
      by (rule split_pieces_join_conv)
  next
    assume "\<forall>b\<in>set (butlast items). str_find sep (b @ sep) = Some (length b)"
    with that have "split_pieces sep (str_join sep items) = items" by (rule split)
    with sep [OF that] show "str_split sep (str_join sep items) = Inr items"
      by (simp add: str_split_def)
  qed
  have none: "parse_list0 base sep (Some (str_join sep items)) = convert_parts base items"
    if "items = []"
    using that by (simp add: parse_list0_def)
  have zero: "parse_list0 base sep (Some (str_join sep items)) = convert_parts base items"
    if items: "items = a # rest"
      and inner: "\<forall>b\<in>set (butlast (str_lstrip a # rest)).
        str_find sep (b @ sep) = Some (length b)"
  proof -
    from items have ne: "items \<noteq> []" by simp
    from ok have "\<forall>b\<in>set items. str_strip b \<noteq> []" by simp
    then have nb: "str_strip (str_join sep items) \<noteq> []" using ne by (rule join_nonblank)
    then have nonempty: "str_join sep items \<noteq> []" by (auto simp: str_strip_Nil)
    from ok items have "\<forall>b\<in>set (a # rest). str_strip b \<noteq> [] \<and> str_find sep b = None"
      by simp
    then have "map str_strip (split_pieces sep (str_strip (str_join sep (a # rest))))
        = map str_strip (a # rest)"
      using inner by (rule split_strip_join)
    then have "convert_parts base (split_pieces sep (str_strip (str_join sep (a # rest))))
        = convert_parts base (a # rest)"
      by (rule convert_parts_cong)
    with sep [OF ne] nb nonempty items show ?thesis
      by (simp add: parse_list0_def str_split_def)
  qed
  from one exact none zero show ?thesis by blast
qed

text \<open>
  Witness for C2 amended: the items \<open>"1"\<close>, \<open>" 2"\<close> and \<open>"3 "\<close> with the default separator,
  and the items \<open>"x"\<close> and \<open>"a"\<close> with the separator \<open>"aa"\<close>, which begins inside the last
  item only; the base converter returns its argument.
\<close>

theorem list_roundtrip_witness:
  "parse_list (Inr :: string \<Rightarrow> exn + string) '','' (str_join '','' [''1'', '' 2'', ''3 ''])
     = Inr [''1'', ''2'', ''3''] \<and>
   str_split '','' (str_join '','' [''1'', '' 2'', ''3 '']) = Inr [''1'', '' 2'', ''3 ''] \<and>
   parse_list0 (Inr :: string \<Rightarrow> exn + string) '','' (Some (str_join '','' [''1'', '' 2'', ''3 '']))
     = Inr [''1'', ''2'', ''3''] \<and>
   parse_list (Inr :: string \<Rightarrow> exn + string) ''aa'' (str_join ''aa'' [''x'', ''a''])
     = Inr [''x'', ''a''] \<and>
   parse_list0 (Inr :: string \<Rightarrow> exn + string) ''aa'' (Some (str_join ''aa'' [''x'', ''a'']))
     = Inr [''x'', ''a'']"
proof -
  have items: "\<forall>b\<in>set [''1'', '' 2'', ''3 '']. str_strip b \<noteq> [] \<and> str_find '','' b = None"
    and inner: "\<forall>b\<in>set (butlast [''1'', '' 2'', ''3 '']).
      str_find '','' (b @ '','') = Some (length b)"
    and inner0: "\<forall>b\<in>set (butlast (str_lstrip ''1'' # ['' 2'', ''3 ''])).
      str_find '','' (b @ '','') = Some (length b)"
    and conv: "convert_parts (Inr :: string \<Rightarrow> exn + string) [''1'', '' 2'', ''3 '']
      = Inr [''1'', ''2'', ''3'']"
    by code_simp+
  have items': "\<forall>b\<in>set [''x'', ''a'']. str_strip b \<noteq> [] \<and> str_find ''aa'' b = None"
    and inner': "\<forall>b\<in>set (butlast [''x'', ''a'']). str_find ''aa'' (b @ ''aa'') = Some (length b)"
    and inner0': "\<forall>b\<in>set (butlast (str_lstrip ''x'' # [''a''])).
      str_find ''aa'' (b @ ''aa'') = Some (length b)"
    and conv': "convert_parts (Inr :: string \<Rightarrow> exn + string) [''x'', ''a''] = Inr [''x'', ''a'']"
    by code_simp+
  show ?thesis
    using list_roundtrip [OF items, of "Inr :: string \<Rightarrow> exn + string" "''1''" "['' 2'', ''3 '']"]
      list_roundtrip [OF items', of "Inr :: string \<Rightarrow> exn + string" "''x''" "[''a'']"]
      inner inner0 conv inner' inner0' conv'
    by simp
qed

section \<open>The enumeration converter\<close>

text \<open>
  C3. \<open>parse_enum\<close> returns \<open>mappings[text]\<close> when \<open>text\<close> is a key (so every key converts
  to its own value); otherwise \<open>mappings[text.lower()]\<close> when the lowercased text is a
  key; otherwise the \<open>KeyError\<close> of the failed lookup reaches the caller.
\<close>

theorem parse_enum_lookup:
  "(m t = Some v \<longrightarrow> parse_enum m t = Inr v) \<and>
   (m t = None \<longrightarrow> m (str_lower t) = Some v \<longrightarrow> parse_enum m t = Inr v) \<and>
   (m t = None \<longrightarrow> m (str_lower t) = None \<longrightarrow> parse_enum m t = Inl (KeyError (str_lower t)))"
  by (simp add: parse_enum_def enum_key_def)

text \<open>Witness for C3: the yes/no enumeration of the module's docstring, one text for each case.\<close>

theorem parse_enum_lookup_witness:
  "parse_enum [''yes'' \<mapsto> True, ''no'' \<mapsto> False] ''no'' = Inr False \<and>
   parse_enum [''yes'' \<mapsto> True, ''no'' \<mapsto> False] ''YES'' = Inr True \<and>
   parse_enum [''yes'' \<mapsto> True, ''no'' \<mapsto> False] ''Maybe'' = Inl (KeyError ''maybe'')"
proof -
  have low: "str_lower ''YES'' = ''yes''" "str_lower ''Maybe'' = ''maybe''"
    by code_simp+
  show ?thesis
    using parse_enum_lookup [of "[''yes'' \<mapsto> True, ''no'' \<mapsto> False]" "''no''" False]
      parse_enum_lookup [of "[''yes'' \<mapsto> True, ''no'' \<mapsto> False]" "''YES''" True]
      parse_enum_lookup [of "[''yes'' \<mapsto> True, ''no'' \<mapsto> False]" "''Maybe''"]
    by (simp add: low)
qed

text \<open>
  C10. The fallback of \<open>parse_enum\<close> goes one way only. If neither the text nor its
  lowercase form is a key, the conversion raises \<open>KeyError\<close>. The text is never
  uppercased: for a key \<open>k\<close> that is not its own lowercase form, converting the lowercase
  form of \<open>k\<close> raises \<open>KeyError\<close> when that form is no key, and the only text whose lookup
  reaches the key \<open>k\<close> is \<open>k\<close> itself.
\<close>

theorem parse_enum_lowercase_only:
  "(m t = None \<longrightarrow> m (str_lower t) = None \<longrightarrow> parse_enum m t = Inl (KeyError (str_lower t))) \<and>
   (m k \<noteq> None \<longrightarrow> str_lower k \<noteq> k \<longrightarrow> m (str_lower k) = None \<longrightarrow>
      parse_enum m (str_lower k) = Inl (KeyError (str_lower k))) \<and>
   (str_lower k \<noteq> k \<longrightarrow> enum_key m t = k \<longrightarrow> t = k)"
  by (auto simp: parse_enum_def enum_key_def str_lower_idem split: if_splits)

text \<open>
  Witness for C10: the mapping with the single key \<open>"YES"\<close>; the text \<open>"Maybe"\<close> misses
  both lookups, and \<open>"yes"\<close>, the lowercase form of the key, is not found.
\<close>

theorem parse_enum_lowercase_only_witness:
  "parse_enum [''YES'' \<mapsto> True] ''Maybe'' = Inl (KeyError ''maybe'') \<and>
   parse_enum [''YES'' \<mapsto> True] ''yes'' = Inl (KeyError ''yes'') \<and>
   enum_key [''YES'' \<mapsto> True] ''YES'' = ''YES''"
proof -
  have low: "str_lower ''YES'' = ''yes''" "str_lower ''Maybe'' = ''maybe''"
    by code_simp+
  have key: "enum_key [''YES'' \<mapsto> True] ''YES'' = ''YES''"
    by (simp add: enum_key_def)
  show ?thesis
    using parse_enum_lowercase_only [of "[''YES'' \<mapsto> True]" "''Maybe''" "''YES''"]
      parse_enum_lowercase_only [of "[''YES'' \<mapsto> True]" "''YES''" "''YES''"]
      key
    by (simp add: low)
qed

section \<open>The choice converters\<close>

lemma parse_choice_cases:
  "(t \<notin> set choices \<longrightarrow> parse_choice choices value_converter t = Inl AssertionError) \<and>
   (t \<in> set choices \<longrightarrow> parse_choice choices None t = Inr (Literal t)) \<and>
   (t \<in> set choices \<longrightarrow> truth_value f \<longrightarrow>
      parse_choice choices (Some f) t = map_sum id Converted (call f t)) \<and>
   (t \<in> set choices \<longrightarrow> \<not> truth_value f \<longrightarrow>
      parse_choice choices (Some f) t = Inr (Literal t))"
  by (simp add: parse_choice_def)

text \<open>
  C4. The claim: \<open>parse_choice\<close> fails its assertion on a text that is not in \<open>choices\<close>,
  and on a member it returns the text unchanged, or \<open>value_converter(text)\<close> when a
  converter was supplied. \<open>parse_choice\<close> does so for every text, every choices list and
  every converter that is absent or true (\<open>parse_choice_cases\<close>). It does not for a
  supplied converter that is a false callable object, which the truth test of line 191
  takes for no converter: with the choices yes/no and a false callable that returns the
  length of the text, the member \<open>"yes"\<close> comes back unchanged, not as the \<open>3\<close> that the
  converter returns for it; the same callable with a true truth value is applied.
\<close>

theorem parse_choice_falsy_converter:
  "''yes'' \<in> set [''yes'', ''no''] \<and>
   call (Callable False (\<lambda>s. Inr (length s))) ''yes'' = Inr 3 \<and>
   parse_choice [''yes'', ''no''] (Some (Callable False (\<lambda>s. Inr (length s)))) ''yes''
     = Inr (Literal ''yes'') \<and>
   parse_choice [''yes'', ''no''] (Some (Callable False (\<lambda>s. Inr (length s)))) ''yes''
     \<noteq> Inr (Converted 3) \<and>
   parse_choice [''yes'', ''no''] (Some (Callable True (\<lambda>s. Inr (length s)))) ''yes''
     = Inr (Converted 3)"
  by (simp add: parse_choice_def numeral_3_eq_3)

lemma parse_choice2_None_iff:
  "parse_choice2 choices text = Inr None \<longleftrightarrow> text = [] \<and> [] \<in> set choices"
  by (auto simp: parse_choice2_def split: sum.splits)

text \<open>
  C1. The claim: for every choices list, \<open>parse_choice2\<close> returns \<open>None\<close> on the empty
  text instead of failing the membership check. \<open>parse_choice2\<close> does not: the assertion
  of line 210 runs before the test for empty text of line 212, so the branch that returns
  \<open>None\<close> is reached only when \<open>""\<close> is itself one of the choices
  (\<open>parse_choice2_None_iff\<close>). With the choices yes/no the empty text fails the assertion.
\<close>

theorem parse_choice2_empty_text_fails:
  "parse_choice2 [''yes'', ''no''] '''' = Inl AssertionError \<and>
   parse_choice2 [''yes'', ''no''] '''' \<noteq> Inr None"
  by (simp add: parse_choice2_def)

text \<open>
  C8, as stated, fails at two kinds of index: where \<open>choices[i]\<close> is the empty string the
  result is \<open>None\<close>, and where \<open>choices[i]\<close> also stands at an earlier index the result
  carries that earlier index.
\<close>

theorem parse_choice2_index_counterexample:
  "parse_choice2 ['''', ''yes''] (['''', ''yes''] ! 0) = Inr None \<and>
   parse_choice2 [''a'', ''b'', ''a''] ([''a'', ''b'', ''a''] ! 2) = Inr (Some (0, ''a'')) \<and>
   parse_choice2 [''a'', ''b'', ''a''] ([''a'', ''b'', ''a''] ! 2)
     \<noteq> Inr (Some (2, [''a'', ''b'', ''a''] ! 2))"
  by (simp add: parse_choice2_def)

text \<open>
  C8, amended. For every choices list and every index \<open>i\<close> of it at which the text is
  not empty and is not the text of an earlier index, \<open>parse_choice2\<close> applied to
  \<open>choices[i]\<close> returns the pair \<open>(i, choices[i])\<close>.
\<close>

theorem parse_choice2_index:
  "i < length choices \<Longrightarrow> choices ! i \<noteq> [] \<Longrightarrow> choices ! i \<notin> set (take i choices) \<Longrightarrow>
     parse_choice2 choices (choices ! i) = Inr (Some (i, choices ! i))"
  by (simp add: parse_choice2_def list_index_first)

text \<open>Witness for C8 amended: the scenario of the choices yes/no and the text \<open>"no"\<close>.\<close>

theorem parse_choice2_index_witness:
  "parse_choice2 [''yes'', ''no''] ([''yes'', ''no''] ! 1) = Inr (Some (1, ''no''))"
  using parse_choice2_index [of 1 "[''yes'', ''no'']"]
  by simp

end
